theory Spec2Isabelle
  imports Main "HOL-Library.Monad_Syntax"
begin

unbundle bit_operations_syntax

section \<open>The multiplexer scanner of circuitcode.ino\<close>

text \<open>
  The sketch drives four select lines of an analog multiplexer, waits for the
  signal to settle, samples the reference input and one dedicated input per
  channel, keeps the readings in two global arrays of eight ints and prints
  both arrays on the serial line. Everything happens in \<open>loop()\<close>, which the
  Arduino runtime calls again and again; the model below follows that function
  statement by statement.
\<close>

subsection \<open>Pins\<close>

text \<open>The select lines: \<open>const int C0 = 13; ... const int C3 = 10;\<close>\<close>

definition C0 :: int where "C0 = 13"
definition C1 :: int where "C1 = 12"
definition C2 :: int where "C2 = 11"
definition C3 :: int where "C3 = 10"

text \<open>
  Modelled from the spec: the analog pin constants \<open>A0\<close>, \<open>A8\<close> .. \<open>A15\<close> are
  declared by the board's core header, which is not part of the repository.
  The spec calls them distinct physical analog input pins; they are numbered
  here as on the Arduino Mega 2560 (the board that has sixteen analog inputs),
  where analog input \<open>k\<close> is pin \<open>54 + k\<close>.
\<close>

definition A0 :: int where "A0 = 54"
definition A8 :: int where "A8 = 62"
definition A9 :: int where "A9 = 63"
definition A10 :: int where "A10 = 64"
definition A11 :: int where "A11 = 65"
definition A12 :: int where "A12 = 66"
definition A13 :: int where "A13 = 67"
definition A14 :: int where "A14 = 68"
definition A15 :: int where "A15 = 69"

text \<open>\<open>int analogPins[8] = {A8, A9, A10, A11, A12, A13, A14, A15};\<close>
  The sketch never assigns to the table.\<close>

definition analogPins :: "int list" where
  "analogPins = [A8, A9, A10, A11, A12, A13, A14, A15]"

subsection \<open>State and instrumentation\<close>

text \<open>
  The two global arrays are named after the source. Besides them the state
  holds what the sketch does to the outside world: the level of every digital
  output, the bytes written to \<open>Serial\<close>, and a log of the hardware calls and
  array stores in the order in which they happen (oldest first). The log is
  instrumentation only; no statement of the sketch reads it. Writes to
  \<open>Serial\<close> are kept in \<open>serial\<close> and not logged.

  Readings are \<open>int\<close>: the sketch stores and prints them and computes nothing
  from them, so the width of the C type plays no role. The loop counters stay
  below 12. \<open>setup()\<close> only configures the four select lines as outputs and
  opens the serial port; it touches nothing that \<open>loop()\<close> reads.
\<close>

datatype buffer = ValuesAnalog | ValuesA0

datatype event =
    DigitalWrite int bool
  | Delay nat
  | AnalogRead int
  | Store buffer int int

text \<open>
  Modelled from the spec: \<open>analogRead\<close> is a black box that returns an integer
  for a pin. The reading may depend on how many samples were taken before, on
  the levels of the digital outputs (they address the multiplexer) and on the
  pin.
\<close>

type_synonym sampler = "nat \<Rightarrow> (int \<Rightarrow> bool) \<Rightarrow> int \<Rightarrow> int"

record state =
  pins :: "int \<Rightarrow> bool"
  valuesAnalog :: "int list"
  valuesA0 :: "int list"
  serial :: string
  samples :: nat
  trace :: "event list"

text \<open>\<open>#define bitRead(value, bit) (((value) >> (bit)) & 0x01)\<close>\<close>

definition bitRead :: "int \<Rightarrow> nat \<Rightarrow> int" where
  "bitRead v b = drop_bit b v AND 1"

text \<open>\<open>digitalWrite(pin, val)\<close> drives the pin low when \<open>val\<close> is 0 (\<open>LOW\<close>),
  high otherwise.\<close>

definition digitalWrite :: "int \<Rightarrow> int \<Rightarrow> state \<Rightarrow> state" where
  "digitalWrite pin val s =
     s\<lparr>pins := (pins s)(pin := (val \<noteq> 0)),
       trace := trace s @ [DigitalWrite pin (val \<noteq> 0)]\<rparr>"

definition delay :: "nat \<Rightarrow> state \<Rightarrow> state" where
  "delay ms s = s\<lparr>trace := trace s @ [Delay ms]\<rparr>"

definition analogRead :: "sampler \<Rightarrow> int \<Rightarrow> state \<Rightarrow> int \<times> state" where
  "analogRead smp pin s =
     (smp (samples s) (pins s) pin,
      s\<lparr>samples := samples s + 1, trace := trace s @ [AnalogRead pin]\<rparr>)"

text \<open>
  C arrays: an index outside the array is undefined behaviour, which the model
  reports as \<open>None\<close>.
\<close>

definition array_get :: "'a list \<Rightarrow> int \<Rightarrow> 'a option" where
  "array_get xs i = (if 0 \<le> i \<and> i < int (length xs) then Some (xs ! nat i) else None)"

definition array_set :: "'a list \<Rightarrow> int \<Rightarrow> 'a \<Rightarrow> 'a list option" where
  "array_set xs i v = (if 0 \<le> i \<and> i < int (length xs) then Some (xs[nat i := v]) else None)"

definition set_valuesA0 :: "int \<Rightarrow> int \<Rightarrow> state \<Rightarrow> state option" where
  "set_valuesA0 i v s =
     map_option (\<lambda>xs. s\<lparr>valuesA0 := xs, trace := trace s @ [Store ValuesA0 i v]\<rparr>)
       (array_set (valuesA0 s) i v)"

definition set_valuesAnalog :: "int \<Rightarrow> int \<Rightarrow> state \<Rightarrow> state option" where
  "set_valuesAnalog i v s =
     map_option (\<lambda>xs. s\<lparr>valuesAnalog := xs, trace := trace s @ [Store ValuesAnalog i v]\<rparr>)
       (array_set (valuesAnalog s) i v)"

subsection \<open>The two scanning loops\<close>

text \<open>The body of \<open>for (int i = 0; i < 4; i++)\<close>.\<close>

definition scan_low_body :: "sampler \<Rightarrow> int \<Rightarrow> state \<Rightarrow> state option" where
  "scan_low_body smp i s0 = do {
     let s1 = digitalWrite C0 (bitRead i 0) s0;
     let s2 = digitalWrite C1 (bitRead i 1) s1;
     let s3 = digitalWrite C2 (bitRead i 2) s2;
     let s4 = digitalWrite C3 (bitRead i 3) s3;
     let s5 = delay 50 s4;
     let (r, s6) = analogRead smp A0 s5;
     s7 \<leftarrow> set_valuesA0 i r s6;
     p \<leftarrow> array_get analogPins i;
     let (v, s8) = analogRead smp p s7;
     set_valuesAnalog i v s8
   }"

function scan_low :: "sampler \<Rightarrow> int \<Rightarrow> state \<Rightarrow> state option" where
  "scan_low smp i s =
     (if i < 4 then do { s' \<leftarrow> scan_low_body smp i s; scan_low smp (i + 1) s' }
      else Some s)"
  by pat_completeness auto
termination
  by (relation "measure (\<lambda>(smp, i, s). nat (4 - i))") auto

declare scan_low.simps [simp del]

text \<open>The body of \<open>for (int i = 8; i < 12; i++)\<close>.\<close>

definition scan_high_body :: "sampler \<Rightarrow> int \<Rightarrow> state \<Rightarrow> state option" where
  "scan_high_body smp i s0 = do {
     let s1 = digitalWrite C0 (bitRead i 0) s0;
     let s2 = digitalWrite C1 (bitRead i 1) s1;
     let s3 = digitalWrite C2 (bitRead i 2) s2;
     let s4 = digitalWrite C3 (bitRead i 3) s3;
     let s5 = delay 50 s4;
     let (r, s6) = analogRead smp A0 s5;
     s7 \<leftarrow> set_valuesA0 (i - 4) r s6;
     p \<leftarrow> array_get analogPins (i - 4);
     let (v, s8) = analogRead smp p s7;
     set_valuesAnalog (i - 4) v s8
   }"

function scan_high :: "sampler \<Rightarrow> int \<Rightarrow> state \<Rightarrow> state option" where
  "scan_high smp i s =
     (if i < 12 then do { s' \<leftarrow> scan_high_body smp i s; scan_high smp (i + 1) s' }
      else Some s)"
  by pat_completeness auto
termination
  by (relation "measure (\<lambda>(smp, i, s). nat (12 - i))") auto

declare scan_high.simps [simp del]

text \<open>The scanning part of \<open>loop()\<close>: the first loop from 0, then the second
  from 8.\<close>

definition scanCycle :: "sampler \<Rightarrow> state \<Rightarrow> state option" where
  "scanCycle smp s = do { s' \<leftarrow> scan_low smp 0 s; scan_high smp 8 s' }"

subsection \<open>Serial output\<close>

text \<open>
  Modelled from the spec: \<open>Serial.print\<close> and \<open>Serial.println\<close> belong to the
  board's core library, which is not part of the repository. The spec treats
  the serial link as a line-oriented text sink. As in the Arduino core, an int
  is printed in decimal with a leading minus sign when negative, and
  \<open>println\<close> ends the line with carriage return and line feed.
\<close>

definition digit_char :: "nat \<Rightarrow> char" where
  "digit_char d = ''0123456789'' ! d"

function printNumber :: "nat \<Rightarrow> string" where
  "printNumber n =
     (if n < 10 then [digit_char n] else printNumber (n div 10) @ [digit_char (n mod 10)])"
  by pat_completeness auto
termination
  by (relation "measure (\<lambda>n. n)") auto

declare printNumber.simps [simp del]

definition print_int :: "int \<Rightarrow> string" where
  "print_int n = (if n < 0 then CHR ''-'' # printNumber (nat (- n)) else printNumber (nat n))"

definition line_end :: string where
  "line_end = [CHR 0x0D, CHR 0x0A]"

definition Serial_print :: "string \<Rightarrow> state \<Rightarrow> state" where
  "Serial_print str s = s\<lparr>serial := serial s @ str\<rparr>"

definition Serial_println :: "string \<Rightarrow> state \<Rightarrow> state" where
  "Serial_println str s = Serial_print line_end (Serial_print str s)"

subsection \<open>The two printing loops\<close>

text \<open>The body of the first \<open>for (int i = 0; i < 8; i++)\<close>.\<close>

definition print_A0_body :: "int \<Rightarrow> state \<Rightarrow> state option" where
  "print_A0_body i s0 = do {
     let s1 = Serial_print ''A0 Value['' s0;
     let s2 = Serial_print (print_int i) s1;
     let s3 = Serial_print ''] = '' s2;
     v \<leftarrow> array_get (valuesA0 s3) i;
     Some (Serial_println (print_int v) s3)
   }"

function print_A0 :: "int \<Rightarrow> state \<Rightarrow> state option" where
  "print_A0 i s =
     (if i < 8 then do { s' \<leftarrow> print_A0_body i s; print_A0 (i + 1) s' }
      else Some s)"
  by pat_completeness auto
termination
  by (relation "measure (\<lambda>(i, s). nat (8 - i))") auto

declare print_A0.simps [simp del]

text \<open>The body of the second \<open>for (int i = 0; i < 8; i++)\<close>.\<close>

definition print_Analog_body :: "int \<Rightarrow> state \<Rightarrow> state option" where
  "print_Analog_body i s0 = do {
     let s1 = Serial_print ''Analog Value['' s0;
     let s2 = Serial_print (print_int i) s1;
     let s3 = Serial_print ''] = '' s2;
     v \<leftarrow> array_get (valuesAnalog s3) i;
     Some (Serial_println (print_int v) s3)
   }"

function print_Analog :: "int \<Rightarrow> state \<Rightarrow> state option" where
  "print_Analog i s =
     (if i < 8 then do { s' \<leftarrow> print_Analog_body i s; print_Analog (i + 1) s' }
      else Some s)"
  by pat_completeness auto
termination
  by (relation "measure (\<lambda>(i, s). nat (8 - i))") auto

declare print_Analog.simps [simp del]

text \<open>The printing part of \<open>loop()\<close>.\<close>

definition report :: "state \<Rightarrow> state option" where
  "report s0 = do {
     let s1 = Serial_println ''Sensors 0-7 Readings:'' s0;
     s2 \<leftarrow> print_A0 0 s1;
     let s3 = Serial_println ''Sensors 8-15 Readings:'' s2;
     print_Analog 0 s3
   }"

text \<open>\<open>void loop()\<close>: scan, print, \<open>delay(500)\<close>.\<close>

definition loop :: "sampler \<Rightarrow> state \<Rightarrow> state option" where
  "loop smp s0 = do {
     s1 \<leftarrow> scanCycle smp s0;
     s2 \<leftarrow> report s1;
     Some (delay 500 s2)
   }"

text \<open>
  The state in which \<open>loop()\<close> runs first: C zero-initialises the global
  arrays, and the outputs are low after \<open>setup()\<close> has made pins 10 to 13
  outputs. Nothing was printed, sampled or logged yet.
\<close>

definition power_on :: state where
  "power_on =
     \<lparr>pins = (\<lambda>_. False),
      valuesAnalog = [0, 0, 0, 0, 0, 0, 0, 0],
      valuesA0 = [0, 0, 0, 0, 0, 0, 0, 0],
      serial = [],
      samples = 0,
      trace = []\<rparr>"

text \<open>Both arrays are declared with eight elements.\<close>

definition buffers_ok :: "state \<Rightarrow> bool" where
  "buffers_ok s \<longleftrightarrow> length (valuesAnalog s) = 8 \<and> length (valuesA0 s) = 8"

subsection \<open>Reading the log\<close>

text \<open>The channel number that the four select lines spell, line \<open>C0\<close> being
  the least significant bit.\<close>

definition address :: "(int \<Rightarrow> bool) \<Rightarrow> int" where
  "address out =
     (if out C0 then 1 else 0) + (if out C1 then 2 else 0) +
     (if out C2 then 4 else 0) + (if out C3 then 8 else 0)"

text \<open>What a run from \<open>s\<close> to \<open>s'\<close> added to the log.\<close>

definition new_events :: "state \<Rightarrow> state \<Rightarrow> event list" where
  "new_events s s' = drop (length (trace s)) (trace s')"

text \<open>Replaying the digital writes of a log from given output levels pairs
  every event with the channel number on the select lines at that moment.\<close>

fun replay :: "(int \<Rightarrow> bool) \<Rightarrow> event list \<Rightarrow> (int \<times> event) list" where
  "replay out [] = []"
| "replay out (DigitalWrite pin b # es) =
     (address (out(pin := b)), DigitalWrite pin b) # replay (out(pin := b)) es"
| "replay out (e # es) = (address out, e) # replay out es"

text \<open>The channel selected at each settle delay, at each sample (with the
  pin sampled) and at each store into a buffer (with the index stored to).\<close>

fun settled_channels :: "(int \<times> event) list \<Rightarrow> int list" where
  "settled_channels [] = []"
| "settled_channels ((c, Delay d) # es) = c # settled_channels es"
| "settled_channels (e # es) = settled_channels es"

fun sampled_channels :: "(int \<times> event) list \<Rightarrow> (int \<times> int) list" where
  "sampled_channels [] = []"
| "sampled_channels ((c, AnalogRead p) # es) = (c, p) # sampled_channels es"
| "sampled_channels (e # es) = sampled_channels es"

fun stored_channels :: "buffer \<Rightarrow> (int \<times> event) list \<Rightarrow> (int \<times> int) list" where
  "stored_channels b [] = []"
| "stored_channels b ((c, Store b' k v) # es) =
     (if b' = b then (c, k) # stored_channels b es else stored_channels b es)"
| "stored_channels b (e # es) = stored_channels b es"

text \<open>The stores into one buffer, as pairs of index and value.\<close>

fun stores :: "buffer \<Rightarrow> event list \<Rightarrow> (int \<times> int) list" where
  "stores b [] = []"
| "stores b (Store b' k v # es) =
     (if b' = b then (k, v) # stores b es else stores b es)"
| "stores b (e # es) = stores b es"

text \<open>The digital writes of a log.\<close>

fun digital_writes :: "event list \<Rightarrow> (int \<times> bool) list" where
  "digital_writes [] = []"
| "digital_writes (DigitalWrite pin b # es) = (pin, b) # digital_writes es"
| "digital_writes (e # es) = digital_writes es"

text \<open>Every sample whose value is stored at once: the pin sampled, the buffer
  and the index stored to.\<close>

fun sample_uses :: "event list \<Rightarrow> (int \<times> buffer \<times> int) list" where
  "sample_uses (AnalogRead p # Store b k v # es) = (p, b, k) # sample_uses es"
| "sample_uses (e # es) = sample_uses es"
| "sample_uses [] = []"

text \<open>\<open>settled m t es\<close>: with \<open>t\<close> time units of delay behind the last digital
  write, every sample in \<open>es\<close> is taken at least \<open>m\<close> time units of delay after
  the digital write before it.\<close>

fun settled :: "nat \<Rightarrow> nat \<Rightarrow> event list \<Rightarrow> bool" where
  "settled m t [] = True"
| "settled m t (DigitalWrite pin b # es) = settled m 0 es"
| "settled m t (Delay d # es) = settled m (t + d) es"
| "settled m t (AnalogRead p # es) = (m \<le> t \<and> settled m t es)"
| "settled m t (Store b k v # es) = settled m t es"

text \<open>The spec's rule for the storage index of a channel: channels 0 to 3
  keep their number, channels 8 to 11 are moved down by four, the others have
  none. It is compared with the indices the loops compute.\<close>

definition storage_index_rule :: "int \<Rightarrow> int option" where
  "storage_index_rule c =
     (if 0 \<le> c \<and> c < 4 then Some c
      else if 8 \<le> c \<and> c < 12 then Some (c - 4)
      else None)"

text \<open>The lines of a report as the spec describes them: a header, the eight
  reference readings labelled by index, a second header, the eight per-channel
  readings labelled by index. It is compared with what the printing loops
  write.\<close>

definition report_lines :: "state \<Rightarrow> string list" where
  "report_lines s =
     [''Sensors 0-7 Readings:''] @
     map (\<lambda>k. ''A0 Value['' @ print_int k @ ''] = '' @ print_int (valuesA0 s ! nat k))
       [0, 1, 2, 3, 4, 5, 6, 7] @
     [''Sensors 8-15 Readings:''] @
     map (\<lambda>k. ''Analog Value['' @ print_int k @ ''] = '' @ print_int (valuesAnalog s ! nat k))
       [0, 1, 2, 3, 4, 5, 6, 7]"

text \<open>A sampler for the examples: while channel \<open>c\<close> is selected the reference
  input reads \<open>100 + c\<close> and every other input reads \<open>200 + c\<close>.\<close>

definition mock_sampler :: sampler where
  "mock_sampler n out pin = (if pin = A0 then 100 else 200) + address out"

text \<open>A state with old readings in both buffers, for the examples.\<close>

definition stale :: state where
  "stale =
     power_on\<lparr>valuesAnalog := [9, 9, 9, 9, 9, 9, 9, 9], valuesA0 := [7, 7, 7, 7, 7, 7, 7, 7]\<rparr>"

subsection \<open>One visit of a channel, in closed form\<close>

text \<open>The levels of the outputs once the four select lines carry the bits of
  \<open>c\<close>.\<close>

definition select_lines :: "int \<Rightarrow> (int \<Rightarrow> bool) \<Rightarrow> (int \<Rightarrow> bool)" where
  "select_lines c out =
     out(C0 := bitRead c 0 \<noteq> 0, C1 := bitRead c 1 \<noteq> 0,
         C2 := bitRead c 2 \<noteq> 0, C3 := bitRead c 3 \<noteq> 0)"

text \<open>The state after channel \<open>c\<close> was visited and its readings stored at index
  \<open>k\<close>. The lemmas below show that both loop bodies compute it.\<close>

definition visit :: "sampler \<Rightarrow> int \<Rightarrow> int \<Rightarrow> state \<Rightarrow> state" where
  "visit smp c k s =
     (let out = select_lines c (pins s);
          r = smp (samples s) out A0;
          p = analogPins ! nat k;
          v = smp (samples s + 1) out p
      in s\<lparr>pins := out,
           valuesAnalog := (valuesAnalog s)[nat k := v],
           valuesA0 := (valuesA0 s)[nat k := r],
           samples := samples s + 2,
           trace := trace s @
             [DigitalWrite C0 (bitRead c 0 \<noteq> 0), DigitalWrite C1 (bitRead c 1 \<noteq> 0),
              DigitalWrite C2 (bitRead c 2 \<noteq> 0), DigitalWrite C3 (bitRead c 3 \<noteq> 0),
              Delay 50, AnalogRead A0, Store ValuesA0 k r,
              AnalogRead p, Store ValuesAnalog k v]\<rparr>)"

section \<open>Both scanning loops in closed form\<close>

lemma buffers_ok_visit: "buffers_ok s \<Longrightarrow> buffers_ok (visit smp c k s)"
  by (simp add: buffers_ok_def visit_def Let_def)

lemma length_analogPins: "length analogPins = 8"
  by (simp add: analogPins_def)

lemma scan_low_body_visit:
  assumes "buffers_ok s" "0 \<le> i" "i < 8"
  shows "scan_low_body smp i s = Some (visit smp i i s)"
  using assms
  by (simp add: scan_low_body_def visit_def select_lines_def digitalWrite_def delay_def
      analogRead_def set_valuesA0_def set_valuesAnalog_def array_set_def array_get_def
      buffers_ok_def length_analogPins Let_def)

lemma scan_high_body_visit:
  assumes "buffers_ok s" "4 \<le> i" "i < 12"
  shows "scan_high_body smp i s = Some (visit smp i (i - 4) s)"
  using assms
  by (simp add: scan_high_body_def visit_def select_lines_def digitalWrite_def delay_def
      analogRead_def set_valuesA0_def set_valuesAnalog_def array_set_def array_get_def
      buffers_ok_def length_analogPins Let_def)

lemma scan_low_run:
  assumes "buffers_ok s"
  shows "scan_low smp 0 s = Some (visit smp 3 3 (visit smp 2 2 (visit smp 1 1 (visit smp 0 0 s))))"
  using assms
  by (simp add: scan_low.simps [of smp 0] scan_low.simps [of smp 1] scan_low.simps [of smp 2]
      scan_low.simps [of smp 3] scan_low.simps [of smp 4] scan_low_body_visit buffers_ok_visit)

lemma scan_high_run:
  assumes "buffers_ok s"
  shows "scan_high smp 8 s = Some (visit smp 11 7 (visit smp 10 6 (visit smp 9 5 (visit smp 8 4 s))))"
  using assms
  by (simp add: scan_high.simps [of smp 8] scan_high.simps [of smp 9] scan_high.simps [of smp 10]
      scan_high.simps [of smp 11] scan_high.simps [of smp 12] scan_high_body_visit buffers_ok_visit)

lemma scanCycle_run:
  assumes "buffers_ok s"
  shows "scanCycle smp s =
    Some (visit smp 11 7 (visit smp 10 6 (visit smp 9 5 (visit smp 8 4
         (visit smp 3 3 (visit smp 2 2 (visit smp 1 1 (visit smp 0 0 s))))))))"
  using assms by (simp add: scanCycle_def scan_low_run scan_high_run buffers_ok_visit)


subsection \<open>What a visit leaves in each field\<close>

lemma pins_visit [simp]: "pins (visit smp c k s) = select_lines c (pins s)"
  by (simp add: visit_def Let_def)

lemma samples_visit [simp]: "samples (visit smp c k s) = samples s + 2"
  by (simp add: visit_def Let_def)

lemma serial_visit [simp]: "serial (visit smp c k s) = serial s"
  by (simp add: visit_def Let_def)

lemma valuesA0_visit [simp]:
  "valuesA0 (visit smp c k s) =
     (valuesA0 s)[nat k := smp (samples s) (select_lines c (pins s)) A0]"
  by (simp add: visit_def Let_def)

lemma valuesAnalog_visit [simp]:
  "valuesAnalog (visit smp c k s) =
     (valuesAnalog s)[nat k := smp (samples s + 1) (select_lines c (pins s)) (analogPins ! nat k)]"
  by (simp add: visit_def Let_def)

lemma trace_visit [simp]:
  "trace (visit smp c k s) = trace s @
     [DigitalWrite C0 (bitRead c 0 \<noteq> 0), DigitalWrite C1 (bitRead c 1 \<noteq> 0),
      DigitalWrite C2 (bitRead c 2 \<noteq> 0), DigitalWrite C3 (bitRead c 3 \<noteq> 0),
      Delay 50, AnalogRead A0,
      Store ValuesA0 k (smp (samples s) (select_lines c (pins s)) A0),
      AnalogRead (analogPins ! nat k),
      Store ValuesAnalog k (smp (samples s + 1) (select_lines c (pins s)) (analogPins ! nat k))]"
  by (simp add: visit_def Let_def)

lemma select_lines_twice [simp]: "select_lines c (select_lines c' out) = select_lines c out"
  by (rule ext) (simp add: select_lines_def C0_def C1_def C2_def C3_def)

lemma bitRead_bit: "bitRead c n \<noteq> 0 \<longleftrightarrow> bit c n"
  by (simp add: bitRead_def bit_iff_odd_drop_bit and_one_eq odd_iff_mod_2_eq_one)

lemma address_select_lines:
  assumes "0 \<le> c" "c < 16"
  shows "address (select_lines c out) = c"
proof -
  from assms have "c \<in> {0, 1, 2, 3, 4, 5, 6, 7, 8, 9, 10, 11, 12, 13, 14, 15}"
    by simp presburger
  then show ?thesis
    by (auto simp: address_def select_lines_def bitRead_def C0_def C1_def C2_def C3_def)
qed

lemma list8_update:
  assumes "length xs = 8"
  shows "xs[0 := a, Suc 0 := b, 2 := c, 3 := d, 4 := e, 5 := f, 6 := g, 7 := h] = [a, b, c, d, e, f, g, h]"
  using assms by (auto simp: length_Suc_conv eval_nat_numeral)


section \<open>The readings of one scan cycle\<close>

lemma storage_index_rule_simps:
  "storage_index_rule 0 = Some 0" "storage_index_rule 1 = Some 1"
  "storage_index_rule 2 = Some 2" "storage_index_rule 3 = Some 3"
  "storage_index_rule 8 = Some 4" "storage_index_rule 9 = Some 5"
  "storage_index_rule 10 = Some 6" "storage_index_rule 11 = Some 7"
  by (simp_all add: storage_index_rule_def)

lemma buffers_ok_power_on: "buffers_ok power_on"
  by (simp add: buffers_ok_def power_on_def)

lemma storage_index_rule_range:
  assumes "storage_index_rule c = Some k"
  shows "k \<in> {0, 1, 2, 3, 4, 5, 6, 7}"
proof -
  from assms have "0 \<le> k \<and> k < 8"
    by (auto simp: storage_index_rule_def split: if_splits)
  then show ?thesis by simp presburger
qed

text \<open>
  Claim C1. Take any sampler that, while one of the channels 0 to 3 or 8 to 11
  is selected, reads 100 plus the channel number from the reference input and
  200 plus the channel number from the input of that channel. From any state
  with two buffers of eight entries, one scan cycle returns and leaves
  100, 101, 102, 103, 108, 109, 110, 111 in the reference buffer and
  200, 201, 202, 203, 208, 209, 210, 211 in the per-channel buffer.
\<close>

theorem scanCycle_mock_buffers:
  assumes ok: "buffers_ok s"
    and mock: "\<And>n out k. storage_index_rule (address out) = Some k \<Longrightarrow>
       smp n out A0 = 100 + address out \<and> smp n out (analogPins ! nat k) = 200 + address out"
  shows "\<exists>s'. scanCycle smp s = Some s' \<and>
           valuesA0 s' = [100, 101, 102, 103, 108, 109, 110, 111] \<and>
           valuesAnalog s' = [200, 201, 202, 203, 208, 209, 210, 211]"
proof -
  have sel: "smp n (select_lines c out) A0 = 100 + c \<and>
             smp n (select_lines c out) (analogPins ! nat k) = 200 + c"
    if "0 \<le> c" "c < 16" "storage_index_rule c = Some k" for n out c k
    using mock [of "select_lines c out" k n] that by (simp add: address_select_lines)
  note vals = sel [of 0 0, simplified storage_index_rule_simps, simplified]
    sel [of 1 1, simplified storage_index_rule_simps, simplified]
    sel [of 2 2, simplified storage_index_rule_simps, simplified]
    sel [of 3 3, simplified storage_index_rule_simps, simplified]
    sel [of 8 4, simplified storage_index_rule_simps, simplified]
    sel [of 9 5, simplified storage_index_rule_simps, simplified]
    sel [of 10 6, simplified storage_index_rule_simps, simplified]
    sel [of 11 7, simplified storage_index_rule_simps, simplified]
  from ok have len: "length (valuesA0 s) = 8" "length (valuesAnalog s) = 8"
    by (simp_all add: buffers_ok_def)
  show ?thesis
    by (simp add: scanCycle_run [OF ok] vals list8_update len)
qed

theorem scanCycle_mock_buffers_witness:
  "buffers_ok power_on \<and>
   (\<exists>s'. scanCycle mock_sampler power_on = Some s' \<and>
      valuesA0 s' = [100, 101, 102, 103, 108, 109, 110, 111] \<and>
      valuesAnalog s' = [200, 201, 202, 203, 208, 209, 210, 211])"
proof -
  have mock: "mock_sampler n out A0 = 100 + address out \<and>
              mock_sampler n out (analogPins ! nat k) = 200 + address out"
    if "storage_index_rule (address out) = Some k" for n out k
    using storage_index_rule_range [OF that]
    by (auto simp: mock_sampler_def analogPins_def A0_def A8_def A9_def A10_def A11_def
        A12_def A13_def A14_def A15_def)
  from scanCycle_mock_buffers [of power_on mock_sampler, OF buffers_ok_power_on mock] show ?thesis
    by (simp add: buffers_ok_power_on)
qed

section \<open>Scanning twice\<close>

text \<open>
  When the reading depends only on the selected channel and the pin, a second
  scan cycle stores what the first one stored.
\<close>

lemma scanCycle_twice_by_address:
  assumes ok: "buffers_ok s"
  shows "\<exists>s1 s2. scanCycle (\<lambda>n out. g (address out)) s = Some s1 \<and>
           scanCycle (\<lambda>n out. g (address out)) s1 = Some s2 \<and>
           valuesA0 s2 = valuesA0 s1 \<and> valuesAnalog s2 = valuesAnalog s1"
proof -
  let ?smp = "\<lambda>(n::nat) out. g (address out)"
  obtain s1 where s1: "scanCycle ?smp s = Some s1"
    by (simp add: scanCycle_run [OF ok])
  from ok have len: "length (valuesA0 s) = 8" "length (valuesAnalog s) = 8"
    by (simp_all add: buffers_ok_def)
  from s1 have ok1: "buffers_ok s1"
    by (auto simp: scanCycle_run [OF ok] buffers_ok_visit ok)
  then have len1: "length (valuesA0 s1) = 8" "length (valuesAnalog s1) = 8"
    by (simp_all add: buffers_ok_def)
  from s1 have a0: "valuesA0 s1 = [g 0 A0, g 1 A0, g 2 A0, g 3 A0, g 8 A0, g 9 A0, g 10 A0, g 11 A0]"
    by (auto simp: scanCycle_run [OF ok] address_select_lines list8_update len)
  from s1 have an: "valuesAnalog s1 =
      [g 0 (analogPins ! 0), g 1 (analogPins ! Suc 0), g 2 (analogPins ! 2), g 3 (analogPins ! 3),
       g 8 (analogPins ! 4), g 9 (analogPins ! 5), g 10 (analogPins ! 6), g 11 (analogPins ! 7)]"
    by (auto simp: scanCycle_run [OF ok] address_select_lines list8_update len)
  show ?thesis
    by (simp add: s1 scanCycle_run [OF ok1] address_select_lines list8_update len1 a0 an)
qed

text \<open>
  Claim C7. With a sampler that is a fixed function from the pin to the
  reading, two scan cycles in succession both return, and the two buffers after
  the second cycle equal the two buffers after the first.
\<close>

theorem scanCycle_twice_same_buffers:
  assumes "buffers_ok s"
  shows "\<exists>s1 s2. scanCycle (\<lambda>n out. f) s = Some s1 \<and>
           scanCycle (\<lambda>n out. f) s1 = Some s2 \<and>
           valuesA0 s2 = valuesA0 s1 \<and> valuesAnalog s2 = valuesAnalog s1"
  using scanCycle_twice_by_address [OF assms, of "\<lambda>c. f"] .

theorem scanCycle_twice_same_buffers_witness:
  "buffers_ok power_on \<and>
   (\<exists>s1 s2. scanCycle (\<lambda>n out pin. 2 * pin) power_on = Some s1 \<and>
      scanCycle (\<lambda>n out pin. 2 * pin) s1 = Some s2 \<and>
      valuesA0 s2 = valuesA0 s1 \<and> valuesAnalog s2 = valuesAnalog s1 \<and>
      valuesA0 s1 = [108, 108, 108, 108, 108, 108, 108, 108] \<and>
      valuesAnalog s1 = [124, 126, 128, 130, 132, 134, 136, 138])"
proof -
  from scanCycle_twice_same_buffers [OF buffers_ok_power_on, of "\<lambda>pin. 2 * pin"]
  obtain s1 s2 where run: "scanCycle (\<lambda>n out pin. 2 * pin) power_on = Some s1"
      "scanCycle (\<lambda>n out pin. 2 * pin) s1 = Some s2"
      "valuesA0 s2 = valuesA0 s1" "valuesAnalog s2 = valuesAnalog s1"
    by blast
  from run(1) have "valuesA0 s1 = [108, 108, 108, 108, 108, 108, 108, 108]"
      "valuesAnalog s1 = [124, 126, 128, 130, 132, 134, 136, 138]"
    by (auto simp: scanCycle_run buffers_ok_def list8_update power_on_def
        analogPins_def A0_def A8_def A9_def A10_def A11_def A12_def A13_def A14_def A15_def)
  with run show ?thesis
    by (simp add: buffers_ok_power_on)
qed

section \<open>What one scan cycle does, read from the log\<close>

lemma pin_simps:
  "C0 = 13" "C1 = 12" "C2 = 11" "C3 = 10" "A0 = 54"
  "analogPins = [62, 63, 64, 65, 66, 67, 68, 69]"
  by (simp_all add: C0_def C1_def C2_def C3_def A0_def analogPins_def
      A8_def A9_def A10_def A11_def A12_def A13_def A14_def A15_def)

lemmas run_simps = new_events_def bitRead_def address_def pin_simps

subsection \<open>The values stored by a cycle\<close>

text \<open>
  A reading is \<open>smp n out pin\<close>: sample number \<open>n\<close>, taken with the output
  levels \<open>out\<close> from \<open>pin\<close>. While channel \<open>c\<close> is visited the levels are those
  at the start of the cycle with the four select lines overwritten by the bits
  of \<open>c\<close>, and the two samples stored at index \<open>k\<close> are number \<open>2 * k\<close> and
  \<open>2 * k + 1\<close> of the cycle.
\<close>

lemma buffers_ok_stale: "buffers_ok stale"
  by (simp add: stale_def buffers_ok_def power_on_def)

lemma storage_index_rule_cases:
  assumes "storage_index_rule c = Some k"
  shows "(c, k) \<in> {(0, 0), (1, 1), (2, 2), (3, 3), (8, 4), (9, 5), (10, 6), (11, 7)}"
proof -
  from assms have "0 \<le> c \<and> c < 4 \<and> k = c \<or> 8 \<le> c \<and> c < 12 \<and> k = c - 4"
    by (auto simp: storage_index_rule_def split: if_splits)
  then show ?thesis by simp presburger
qed

lemma select_lines_bits:
  "select_lines c out = out(C0 := bit c 0, C1 := bit c 1, C2 := bit c 2, C3 := bit c 3)"
  by (simp add: select_lines_def bitRead_bit)

lemma sample_count_simps:
  fixes n :: nat
  shows "n + 3 = Suc (Suc (Suc (n)))"
    "3 + n = Suc (Suc (Suc (n)))"
    "n + 4 = Suc (Suc (Suc (Suc (n))))"
    "4 + n = Suc (Suc (Suc (Suc (n))))"
    "n + 5 = Suc (Suc (Suc (Suc (Suc (n)))))"
    "5 + n = Suc (Suc (Suc (Suc (Suc (n)))))"
    "n + 6 = Suc (Suc (Suc (Suc (Suc (Suc (n))))))"
    "6 + n = Suc (Suc (Suc (Suc (Suc (Suc (n))))))"
    "n + 7 = Suc (Suc (Suc (Suc (Suc (Suc (Suc (n)))))))"
    "7 + n = Suc (Suc (Suc (Suc (Suc (Suc (Suc (n)))))))"
    "n + 8 = Suc (Suc (Suc (Suc (Suc (Suc (Suc (Suc (n))))))))"
    "8 + n = Suc (Suc (Suc (Suc (Suc (Suc (Suc (Suc (n))))))))"
    "n + 9 = Suc (Suc (Suc (Suc (Suc (Suc (Suc (Suc (Suc (n)))))))))"
    "9 + n = Suc (Suc (Suc (Suc (Suc (Suc (Suc (Suc (Suc (n)))))))))"
    "n + 10 = Suc (Suc (Suc (Suc (Suc (Suc (Suc (Suc (Suc (Suc (n))))))))))"
    "10 + n = Suc (Suc (Suc (Suc (Suc (Suc (Suc (Suc (Suc (Suc (n))))))))))"
    "n + 11 = Suc (Suc (Suc (Suc (Suc (Suc (Suc (Suc (Suc (Suc (Suc (n)))))))))))"
    "11 + n = Suc (Suc (Suc (Suc (Suc (Suc (Suc (Suc (Suc (Suc (Suc (n)))))))))))"
    "n + 12 = Suc (Suc (Suc (Suc (Suc (Suc (Suc (Suc (Suc (Suc (Suc (Suc (n))))))))))))"
    "12 + n = Suc (Suc (Suc (Suc (Suc (Suc (Suc (Suc (Suc (Suc (Suc (Suc (n))))))))))))"
    "n + 13 = Suc (Suc (Suc (Suc (Suc (Suc (Suc (Suc (Suc (Suc (Suc (Suc (Suc (n)))))))))))))"
    "13 + n = Suc (Suc (Suc (Suc (Suc (Suc (Suc (Suc (Suc (Suc (Suc (Suc (Suc (n)))))))))))))"
    "n + 14 = Suc (Suc (Suc (Suc (Suc (Suc (Suc (Suc (Suc (Suc (Suc (Suc (Suc (Suc (n))))))))))))))"
    "14 + n = Suc (Suc (Suc (Suc (Suc (Suc (Suc (Suc (Suc (Suc (Suc (Suc (Suc (Suc (n))))))))))))))"
    "n + 15 = Suc (Suc (Suc (Suc (Suc (Suc (Suc (Suc (Suc (Suc (Suc (Suc (Suc (Suc (Suc (n)))))))))))))))"
    "15 + n = Suc (Suc (Suc (Suc (Suc (Suc (Suc (Suc (Suc (Suc (Suc (Suc (Suc (Suc (Suc (n)))))))))))))))"
    "n + 16 = Suc (Suc (Suc (Suc (Suc (Suc (Suc (Suc (Suc (Suc (Suc (Suc (Suc (Suc (Suc (Suc (n))))))))))))))))"
    "16 + n = Suc (Suc (Suc (Suc (Suc (Suc (Suc (Suc (Suc (Suc (Suc (Suc (Suc (Suc (Suc (Suc (n))))))))))))))))"
  by simp_all

lemma scanCycle_stores:
  assumes "buffers_ok s" and "scanCycle smp s = Some s'"
  shows "stores ValuesA0 (new_events s s') =
       map (\<lambda>(c, k). (k, smp (samples s + 2 * nat k) ((pins s)(C0 := bit c 0, C1 := bit c 1, C2 := bit c 2, C3 := bit c 3)) A0)) [(0::int, 0::int), (1, 1), (2, 2), (3, 3), (8, 4), (9, 5), (10, 6), (11, 7)]"
    and "stores ValuesAnalog (new_events s s') =
       map (\<lambda>(c, k). (k, smp (samples s + 2 * nat k + 1) ((pins s)(C0 := bit c 0, C1 := bit c 1, C2 := bit c 2, C3 := bit c 3)) (analogPins ! nat k))) [(0::int, 0::int), (1, 1), (2, 2), (3, 3), (8, 4), (9, 5), (10, 6), (11, 7)]"
  using assms(2)
  by (auto simp: scanCycle_run [OF assms(1)] new_events_def select_lines_bits sample_count_simps)

lemma scanCycle_buffers:
  assumes "buffers_ok s" and "scanCycle smp s = Some s'"
  shows "valuesA0 s' = map (\<lambda>(c, k). smp (samples s + 2 * nat k) ((pins s)(C0 := bit c 0, C1 := bit c 1, C2 := bit c 2, C3 := bit c 3)) A0) [(0::int, 0::int), (1, 1), (2, 2), (3, 3), (8, 4), (9, 5), (10, 6), (11, 7)]"
    and "valuesAnalog s' =
       map (\<lambda>(c, k). smp (samples s + 2 * nat k + 1) ((pins s)(C0 := bit c 0, C1 := bit c 1, C2 := bit c 2, C3 := bit c 3)) (analogPins ! nat k)) [(0::int, 0::int), (1, 1), (2, 2), (3, 3), (8, 4), (9, 5), (10, 6), (11, 7)]"
proof -
  from assms(1) have len: "length (valuesA0 s) = 8" "length (valuesAnalog s) = 8"
    by (simp_all add: buffers_ok_def)
  from assms(2) show "valuesA0 s' = map (\<lambda>(c, k). smp (samples s + 2 * nat k) ((pins s)(C0 := bit c 0, C1 := bit c 1, C2 := bit c 2, C3 := bit c 3)) A0) [(0::int, 0::int), (1, 1), (2, 2), (3, 3), (8, 4), (9, 5), (10, 6), (11, 7)]"
    by (auto simp: scanCycle_run [OF assms(1)] list8_update len select_lines_bits
        sample_count_simps)
  from assms(2) show "valuesAnalog s' =
       map (\<lambda>(c, k). smp (samples s + 2 * nat k + 1) ((pins s)(C0 := bit c 0, C1 := bit c 1, C2 := bit c 2, C3 := bit c 3)) (analogPins ! nat k)) [(0::int, 0::int), (1, 1), (2, 2), (3, 3), (8, 4), (9, 5), (10, 6), (11, 7)]"
    by (auto simp: scanCycle_run [OF assms(1)] list8_update len select_lines_bits
        sample_count_simps)
qed

text \<open>
  Claim C2. In every scan cycle the two readings taken while channel 0, 1, 2
  or 3 is selected are stored at the index equal to the channel, those taken
  while channel 8, 9, 10 or 11 is selected at the channel minus four: the
  stores of the cycle, in both buffers, happen at these indices while these
  channels are selected, each store writes the reading sampled with the select
  lines carrying the bits of its channel (the reference reading from \<open>A0\<close>,
  the per-channel reading from the table entry of the index), and when the
  cycle returns the buffers hold these readings at the index of the channel.
  The channels selected when the settle delay starts and when a sample is
  taken are exactly these eight. When select line \<open>C2\<close> is low at the start
  (as at power-on and after any cycle), not even between two digital writes do
  the lines spell another channel.
\<close>

theorem scanCycle_storage_index:
  assumes "buffers_ok s"
  shows "\<exists>s'. scanCycle smp s = Some s' \<and>
     stored_channels ValuesA0 (replay (pins s) (new_events s s')) =
       [(0, 0), (1, 1), (2, 2), (3, 3), (8, 4), (9, 5), (10, 6), (11, 7)] \<and>
     stored_channels ValuesAnalog (replay (pins s) (new_events s s')) =
       [(0, 0), (1, 1), (2, 2), (3, 3), (8, 4), (9, 5), (10, 6), (11, 7)] \<and>
     (\<forall>(c, k) \<in> set (stored_channels ValuesA0 (replay (pins s) (new_events s s'))).
        storage_index_rule c = Some k) \<and>
     (\<forall>(c, k) \<in> set (stored_channels ValuesAnalog (replay (pins s) (new_events s s'))).
        storage_index_rule c = Some k) \<and>
     fst ` set (sampled_channels (replay (pins s) (new_events s s'))) =
       {0, 1, 2, 3, 8, 9, 10, 11} \<and>
     set (settled_channels (replay (pins s) (new_events s s'))) = {0, 1, 2, 3, 8, 9, 10, 11} \<and>
     (\<not> pins s C2 \<longrightarrow>
        fst ` set (replay (pins s) (new_events s s')) \<subseteq> {0, 1, 2, 3, 8, 9, 10, 11}) \<and>
     stores ValuesA0 (new_events s s') =
       map (\<lambda>(c, k). (k, smp (samples s + 2 * nat k) ((pins s)(C0 := bit c 0, C1 := bit c 1, C2 := bit c 2, C3 := bit c 3)) A0)) [(0::int, 0::int), (1, 1), (2, 2), (3, 3), (8, 4), (9, 5), (10, 6), (11, 7)] \<and>
     stores ValuesAnalog (new_events s s') =
       map (\<lambda>(c, k). (k, smp (samples s + 2 * nat k + 1) ((pins s)(C0 := bit c 0, C1 := bit c 1, C2 := bit c 2, C3 := bit c 3)) (analogPins ! nat k))) [(0::int, 0::int), (1, 1), (2, 2), (3, 3), (8, 4), (9, 5), (10, 6), (11, 7)] \<and>
     (\<forall>c k. storage_index_rule c = Some k \<longrightarrow>
        valuesA0 s' ! nat k = smp (samples s + 2 * nat k) ((pins s)(C0 := bit c 0, C1 := bit c 1, C2 := bit c 2, C3 := bit c 3)) A0 \<and>
        valuesAnalog s' ! nat k = smp (samples s + 2 * nat k + 1) ((pins s)(C0 := bit c 0, C1 := bit c 1, C2 := bit c 2, C3 := bit c 3)) (analogPins ! nat k))"
proof -
  define s' where "s' = visit smp 11 7 (visit smp 10 6 (visit smp 9 5 (visit smp 8 4
         (visit smp 3 3 (visit smp 2 2 (visit smp 1 1 (visit smp 0 0 s)))))))"
  have run: "scanCycle smp s = Some s'"
    unfolding s'_def by (rule scanCycle_run [OF assms])
  have log: "stored_channels ValuesA0 (replay (pins s) (new_events s s')) =
       [(0, 0), (1, 1), (2, 2), (3, 3), (8, 4), (9, 5), (10, 6), (11, 7)]"
    "stored_channels ValuesAnalog (replay (pins s) (new_events s s')) =
       [(0, 0), (1, 1), (2, 2), (3, 3), (8, 4), (9, 5), (10, 6), (11, 7)]"
    "fst ` set (sampled_channels (replay (pins s) (new_events s s'))) =
       {0, 1, 2, 3, 8, 9, 10, 11}"
    "set (settled_channels (replay (pins s) (new_events s s'))) = {0, 1, 2, 3, 8, 9, 10, 11}"
    "\<not> pins s C2 \<longrightarrow>
        fst ` set (replay (pins s) (new_events s s')) \<subseteq> {0, 1, 2, 3, 8, 9, 10, 11}"
    by (simp_all add: s'_def run_simps)
  have rule: "\<forall>(c, k) \<in> set (stored_channels ValuesA0 (replay (pins s) (new_events s s'))).
      storage_index_rule c = Some k"
    "\<forall>(c, k) \<in> set (stored_channels ValuesAnalog (replay (pins s) (new_events s s'))).
      storage_index_rule c = Some k"
    unfolding log by (simp_all add: storage_index_rule_def)
  note vals = scanCycle_stores [OF assms run]
  note a0 = scanCycle_buffers(1) [OF assms run]
  note an = scanCycle_buffers(2) [OF assms run]
  have final: "\<forall>c k. storage_index_rule c = Some k \<longrightarrow>
        valuesA0 s' ! nat k = smp (samples s + 2 * nat k) ((pins s)(C0 := bit c 0, C1 := bit c 1, C2 := bit c 2, C3 := bit c 3)) A0 \<and>
        valuesAnalog s' ! nat k = smp (samples s + 2 * nat k + 1) ((pins s)(C0 := bit c 0, C1 := bit c 1, C2 := bit c 2, C3 := bit c 3)) (analogPins ! nat k)"
  proof (intro allI impI)
    fix c k
    assume "storage_index_rule c = Some k"
    then have "(c, k) \<in> {(0, 0), (1, 1), (2, 2), (3, 3), (8, 4), (9, 5), (10, 6), (11, 7)}"
      by (rule storage_index_rule_cases)
    then show "valuesA0 s' ! nat k = smp (samples s + 2 * nat k) ((pins s)(C0 := bit c 0, C1 := bit c 1, C2 := bit c 2, C3 := bit c 3)) A0 \<and>
        valuesAnalog s' ! nat k = smp (samples s + 2 * nat k + 1) ((pins s)(C0 := bit c 0, C1 := bit c 1, C2 := bit c 2, C3 := bit c 3)) (analogPins ! nat k)"
      unfolding a0 an by auto
  qed
  show ?thesis
    by (rule exI [of _ s']) (intro conjI run log rule vals final)
qed

theorem scanCycle_storage_index_witness:
  "buffers_ok stale \<and> \<not> pins stale C2 \<and> storage_index_rule 9 = Some 5 \<and>
   (\<exists>s'. scanCycle mock_sampler stale = Some s' \<and>
      stored_channels ValuesA0 (replay (pins stale) (new_events stale s')) =
        [(0, 0), (1, 1), (2, 2), (3, 3), (8, 4), (9, 5), (10, 6), (11, 7)] \<and>
      stored_channels ValuesAnalog (replay (pins stale) (new_events stale s')) =
        [(0, 0), (1, 1), (2, 2), (3, 3), (8, 4), (9, 5), (10, 6), (11, 7)] \<and>
      fst ` set (replay (pins stale) (new_events stale s')) \<subseteq> {0, 1, 2, 3, 8, 9, 10, 11} \<and>
      stores ValuesA0 (new_events stale s') =
        [(0, 100), (1, 101), (2, 102), (3, 103), (4, 108), (5, 109), (6, 110), (7, 111)] \<and>
      stores ValuesAnalog (new_events stale s') =
        [(0, 200), (1, 201), (2, 202), (3, 203), (4, 208), (5, 209), (6, 210), (7, 211)] \<and>
      valuesA0 s' ! 5 = 109 \<and> valuesAnalog s' ! 5 = 209)"
proof -
  have low: "\<not> pins stale C2"
    by (simp add: stale_def power_on_def)
  have idx: "storage_index_rule 9 = Some 5"
    by (simp add: storage_index_rule_def)
  from scanCycle_storage_index [OF buffers_ok_stale, of mock_sampler] show ?thesis
  proof (elim exE conjE)
    fix s'
    assume s': "scanCycle mock_sampler stale = Some s'"
      "stored_channels ValuesA0 (replay (pins stale) (new_events stale s')) =
        [(0, 0), (1, 1), (2, 2), (3, 3), (8, 4), (9, 5), (10, 6), (11, 7)]"
      "stored_channels ValuesAnalog (replay (pins stale) (new_events stale s')) =
        [(0, 0), (1, 1), (2, 2), (3, 3), (8, 4), (9, 5), (10, 6), (11, 7)]"
      "\<not> pins stale C2 \<longrightarrow>
        fst ` set (replay (pins stale) (new_events stale s')) \<subseteq> {0, 1, 2, 3, 8, 9, 10, 11}"
      "stores ValuesA0 (new_events stale s') =
        map (\<lambda>(c, k). (k, mock_sampler (samples stale + 2 * nat k) ((pins stale)(C0 := bit c 0, C1 := bit c 1, C2 := bit c 2, C3 := bit c 3)) A0)) [(0::int, 0::int), (1, 1), (2, 2), (3, 3), (8, 4), (9, 5), (10, 6), (11, 7)]"
      "stores ValuesAnalog (new_events stale s') =
        map (\<lambda>(c, k). (k, mock_sampler (samples stale + 2 * nat k + 1) ((pins stale)(C0 := bit c 0, C1 := bit c 1, C2 := bit c 2, C3 := bit c 3))
          (analogPins ! nat k))) [(0::int, 0::int), (1, 1), (2, 2), (3, 3), (8, 4), (9, 5), (10, 6), (11, 7)]"
      "\<forall>c k. storage_index_rule c = Some k \<longrightarrow>
        valuesA0 s' ! nat k = mock_sampler (samples stale + 2 * nat k) ((pins stale)(C0 := bit c 0, C1 := bit c 1, C2 := bit c 2, C3 := bit c 3)) A0 \<and>
        valuesAnalog s' ! nat k = mock_sampler (samples stale + 2 * nat k + 1) ((pins stale)(C0 := bit c 0, C1 := bit c 1, C2 := bit c 2, C3 := bit c 3))
          (analogPins ! nat k)"
    from s'(7) idx have "valuesA0 s' ! nat 5 = mock_sampler (samples stale + 2 * nat 5)
          ((pins stale)(C0 := bit (9::int) 0, C1 := bit (9::int) 1, C2 := bit (9::int) 2,
             C3 := bit (9::int) 3)) A0 \<and>
        valuesAnalog s' ! nat 5 = mock_sampler (samples stale + 2 * nat 5 + 1)
          ((pins stale)(C0 := bit (9::int) 0, C1 := bit (9::int) 1, C2 := bit (9::int) 2,
             C3 := bit (9::int) 3)) (analogPins ! nat 5)"
    by blast
    then have at5: "valuesA0 s' ! 5 = 109" "valuesAnalog s' ! 5 = 209"
    by (simp_all add: mock_sampler_def address_def pin_simps)
    from s'(5, 6) have vals:
    "stores ValuesA0 (new_events stale s') =
        [(0, 100), (1, 101), (2, 102), (3, 103), (4, 108), (5, 109), (6, 110), (7, 111)]"
    "stores ValuesAnalog (new_events stale s') =
        [(0, 200), (1, 201), (2, 202), (3, 203), (4, 208), (5, 209), (6, 210), (7, 211)]"
    by (simp_all add: mock_sampler_def address_def pin_simps)
    from s'(1-4) low idx at5 vals show ?thesis
      by (simp add: buffers_ok_stale)
  qed
qed

text \<open>
  Claim C3. Whenever a loop body selects a channel \<open>c\<close> among 0, 1, 2, 3, 8, 9,
  10, 11 (the first loop for 0 to 3, the second for 8 to 11), it makes exactly
  four digital writes: bit 0 of \<open>c\<close> to line \<open>C0\<close>, bit 1 to \<open>C1\<close>, bit 2 to
  \<open>C2\<close> and bit 3 to \<open>C3\<close>. Afterwards the four lines carry these bits, so
  they spell \<open>c\<close> in binary, and no other output has changed.
\<close>

theorem scan_body_select_lines:
  assumes "buffers_ok s" and "c \<in> {0, 1, 2, 3, 8, 9, 10, 11}"
  shows "\<exists>s'. (if c < 4 then scan_low_body smp c s else scan_high_body smp c s) = Some s' \<and>
     digital_writes (new_events s s') =
       [(C0, bit c 0), (C1, bit c 1), (C2, bit c 2), (C3, bit c 3)] \<and>
     pins s' C0 = bit c 0 \<and> pins s' C1 = bit c 1 \<and>
     pins s' C2 = bit c 2 \<and> pins s' C3 = bit c 3 \<and>
     address (pins s') = c \<and>
     (\<forall>pin. pin \<notin> {C0, C1, C2, C3} \<longrightarrow> pins s' pin = pins s pin)"
proof -
  from assms(2) have range: "0 \<le> c" "c < 16" "c < 4 \<or> 8 \<le> c \<and> c < 12"
    by auto
  have lines: "select_lines c out C0 = bit c 0 \<and> select_lines c out C1 = bit c 1 \<and>
      select_lines c out C2 = bit c 2 \<and> select_lines c out C3 = bit c 3 \<and>
      (\<forall>pin. pin \<notin> {C0, C1, C2, C3} \<longrightarrow> select_lines c out pin = out pin)" for out
    by (simp add: select_lines_def bitRead_bit C0_def C1_def C2_def C3_def)
  show ?thesis
  proof (cases "c < 4")
    case True
    with range assms(1) show ?thesis
      by (simp add: scan_low_body_visit new_events_def bitRead_bit address_select_lines lines)
  next
    case False
    with range assms(1) show ?thesis
      by (simp add: scan_high_body_visit new_events_def bitRead_bit address_select_lines lines)
  qed
qed

theorem scan_body_select_lines_witness:
  "buffers_ok power_on \<and> (9::int) \<in> {0, 1, 2, 3, 8, 9, 10, 11} \<and>
   (\<exists>s'. scan_high_body mock_sampler 9 power_on = Some s' \<and>
      digital_writes (new_events power_on s') =
        [(C0, True), (C1, False), (C2, False), (C3, True)] \<and>
      pins s' C0 \<and> \<not> pins s' C1 \<and> \<not> pins s' C2 \<and> pins s' C3 \<and>
      address (pins s') = 9 \<and> \<not> pins s' 9)"
proof -
  have mem: "(9::int) \<in> {0, 1, 2, 3, 8, 9, 10, 11}"
    by simp
  have other: "(9::int) \<notin> {C0, C1, C2, C3}" "\<not> pins power_on 9"
    by (simp_all add: pin_simps power_on_def)
  from scan_body_select_lines [OF buffers_ok_power_on mem, of mock_sampler] other
  show ?thesis
    by (auto simp: buffers_ok_power_on)
qed

text \<open>
  Claim C5. In every scan cycle the channels on the select lines at the eight
  settle delays are 0, 1, 2, 3, 8, 9, 10, 11 in this order; two samples are
  taken on each of them in the same order, so each buffer receives eight
  values; and no sample is taken while the lines spell 4 to 7 or 12 to 15.
\<close>

theorem scanCycle_visit_order:
  assumes "buffers_ok s"
  shows "\<exists>s'. scanCycle smp s = Some s' \<and>
     settled_channels (replay (pins s) (new_events s s')) = [0, 1, 2, 3, 8, 9, 10, 11] \<and>
     map fst (sampled_channels (replay (pins s) (new_events s s'))) =
       [0, 0, 1, 1, 2, 2, 3, 3, 8, 8, 9, 9, 10, 10, 11, 11] \<and>
     length (stores ValuesA0 (new_events s s')) = 8 \<and>
     length (stores ValuesAnalog (new_events s s')) = 8 \<and>
     fst ` set (sampled_channels (replay (pins s) (new_events s s'))) \<inter>
       {4, 5, 6, 7, 12, 13, 14, 15} = {}"
  by (simp add: scanCycle_run [OF assms] run_simps)

theorem scanCycle_visit_order_witness:
  "buffers_ok power_on \<and>
   (\<exists>s'. scanCycle mock_sampler power_on = Some s' \<and>
     settled_channels (replay (pins power_on) (new_events power_on s')) =
       [0, 1, 2, 3, 8, 9, 10, 11] \<and>
     map fst (sampled_channels (replay (pins power_on) (new_events power_on s'))) =
       [0, 0, 1, 1, 2, 2, 3, 3, 8, 8, 9, 9, 10, 10, 11, 11] \<and>
     length (stores ValuesA0 (new_events power_on s')) = 8 \<and>
     length (stores ValuesAnalog (new_events power_on s')) = 8 \<and>
     fst ` set (sampled_channels (replay (pins power_on) (new_events power_on s'))) \<inter>
       {4, 5, 6, 7, 12, 13, 14, 15} = {})"
  using buffers_ok_power_on scanCycle_visit_order [OF buffers_ok_power_on, of mock_sampler]
  by (rule conjI)

text \<open>
  Claim C6. After every scan cycle both buffers still have eight entries. The
  stores of the cycle into each buffer go to the indices 0, 1, .., 7, each
  once, and each buffer ends up holding exactly the values stored in this
  cycle. These values are the sixteen readings sampled in this cycle: index
  \<open>k\<close> of the reference buffer holds sample number \<open>2 * k\<close> of the cycle, taken
  from \<open>A0\<close>, and index \<open>k\<close> of the per-channel buffer the next sample, taken
  from entry \<open>k\<close> of the pin table, both with the select lines carrying the
  same channel. Whatever the buffers held before is gone. The store of the
  reference reading at an index is followed at once by the sample and the
  store of the per-channel reading at the same index, so no index gets one
  reading without the other.
\<close>

theorem scanCycle_writes_each_slot_once:
  assumes "buffers_ok s"
  shows "\<exists>s'. scanCycle smp s = Some s' \<and>
     length (valuesA0 s') = 8 \<and> length (valuesAnalog s') = 8 \<and>
     map fst (stores ValuesA0 (new_events s s')) = [0, 1, 2, 3, 4, 5, 6, 7] \<and>
     map fst (stores ValuesAnalog (new_events s s')) = [0, 1, 2, 3, 4, 5, 6, 7] \<and>
     valuesA0 s' = map snd (stores ValuesA0 (new_events s s')) \<and>
     valuesAnalog s' = map snd (stores ValuesAnalog (new_events s s')) \<and>
     map (\<lambda>(pin, b, k). (b, k)) (sample_uses (new_events s s')) =
       [(ValuesA0, 0), (ValuesAnalog, 0), (ValuesA0, 1), (ValuesAnalog, 1),
        (ValuesA0, 2), (ValuesAnalog, 2), (ValuesA0, 3), (ValuesAnalog, 3),
        (ValuesA0, 4), (ValuesAnalog, 4), (ValuesA0, 5), (ValuesAnalog, 5),
        (ValuesA0, 6), (ValuesAnalog, 6), (ValuesA0, 7), (ValuesAnalog, 7)] \<and>
     samples s' = samples s + 16 \<and>
     valuesA0 s' = map (\<lambda>(c, k). smp (samples s + 2 * nat k) ((pins s)(C0 := bit c 0, C1 := bit c 1, C2 := bit c 2, C3 := bit c 3)) A0) [(0::int, 0::int), (1, 1), (2, 2), (3, 3), (8, 4), (9, 5), (10, 6), (11, 7)] \<and>
     valuesAnalog s' =
       map (\<lambda>(c, k). smp (samples s + 2 * nat k + 1) ((pins s)(C0 := bit c 0, C1 := bit c 1, C2 := bit c 2, C3 := bit c 3)) (analogPins ! nat k)) [(0::int, 0::int), (1, 1), (2, 2), (3, 3), (8, 4), (9, 5), (10, 6), (11, 7)]"
proof -
  define s' where "s' = visit smp 11 7 (visit smp 10 6 (visit smp 9 5 (visit smp 8 4
         (visit smp 3 3 (visit smp 2 2 (visit smp 1 1 (visit smp 0 0 s)))))))"
  from assms have len: "length (valuesA0 s) = 8" "length (valuesAnalog s) = 8"
    by (simp_all add: buffers_ok_def)
  have run: "scanCycle smp s = Some s'"
    unfolding s'_def by (rule scanCycle_run [OF assms])
  have old: "length (valuesA0 s') = 8" "length (valuesAnalog s') = 8"
    "map fst (stores ValuesA0 (new_events s s')) = [0, 1, 2, 3, 4, 5, 6, 7]"
    "map fst (stores ValuesAnalog (new_events s s')) = [0, 1, 2, 3, 4, 5, 6, 7]"
    "valuesA0 s' = map snd (stores ValuesA0 (new_events s s'))"
    "valuesAnalog s' = map snd (stores ValuesAnalog (new_events s s'))"
    "map (\<lambda>(pin, b, k). (b, k)) (sample_uses (new_events s s')) =
       [(ValuesA0, 0), (ValuesAnalog, 0), (ValuesA0, 1), (ValuesAnalog, 1),
        (ValuesA0, 2), (ValuesAnalog, 2), (ValuesA0, 3), (ValuesAnalog, 3),
        (ValuesA0, 4), (ValuesAnalog, 4), (ValuesA0, 5), (ValuesAnalog, 5),
        (ValuesA0, 6), (ValuesAnalog, 6), (ValuesA0, 7), (ValuesAnalog, 7)]"
    by (simp_all add: s'_def new_events_def list8_update len)
  have count: "samples s' = samples s + 16"
    by (simp add: s'_def)
  show ?thesis
    by (rule exI [of _ s'])
      (intro conjI run old count scanCycle_buffers [OF assms run])
qed

theorem scanCycle_writes_each_slot_once_witness:
  "buffers_ok stale \<and>
   valuesA0 stale = [7, 7, 7, 7, 7, 7, 7, 7] \<and> valuesAnalog stale = [9, 9, 9, 9, 9, 9, 9, 9] \<and>
   (\<exists>s'. scanCycle mock_sampler stale = Some s' \<and>
     length (valuesA0 s') = 8 \<and> length (valuesAnalog s') = 8 \<and>
     map fst (stores ValuesA0 (new_events stale s')) = [0, 1, 2, 3, 4, 5, 6, 7] \<and>
     map fst (stores ValuesAnalog (new_events stale s')) = [0, 1, 2, 3, 4, 5, 6, 7] \<and>
     valuesA0 s' = map snd (stores ValuesA0 (new_events stale s')) \<and>
     valuesAnalog s' = map snd (stores ValuesAnalog (new_events stale s')) \<and>
     valuesA0 s' = [100, 101, 102, 103, 108, 109, 110, 111] \<and>
     valuesAnalog s' = [200, 201, 202, 203, 208, 209, 210, 211])"
proof -
  have before: "valuesA0 stale = [7, 7, 7, 7, 7, 7, 7, 7]"
      "valuesAnalog stale = [9, 9, 9, 9, 9, 9, 9, 9]"
    by (simp_all add: stale_def)
  from scanCycle_writes_each_slot_once [OF buffers_ok_stale, of mock_sampler] show ?thesis
  proof (elim exE conjE)
    fix s'
    assume s': "scanCycle mock_sampler stale = Some s'"
      "length (valuesA0 s') = 8" "length (valuesAnalog s') = 8"
      "map fst (stores ValuesA0 (new_events stale s')) = [0, 1, 2, 3, 4, 5, 6, 7]"
      "map fst (stores ValuesAnalog (new_events stale s')) = [0, 1, 2, 3, 4, 5, 6, 7]"
      "valuesA0 s' = map snd (stores ValuesA0 (new_events stale s'))"
      "valuesAnalog s' = map snd (stores ValuesAnalog (new_events stale s'))"
      "valuesA0 s' =
         map (\<lambda>(c, k). mock_sampler (samples stale + 2 * nat k)
                ((pins stale)(C0 := bit c 0, C1 := bit c 1, C2 := bit c 2, C3 := bit c 3)) A0)
           [(0::int, 0::int), (1, 1), (2, 2), (3, 3), (8, 4), (9, 5), (10, 6), (11, 7)]"
      "valuesAnalog s' =
         map (\<lambda>(c, k). mock_sampler (samples stale + 2 * nat k + 1)
                ((pins stale)(C0 := bit c 0, C1 := bit c 1, C2 := bit c 2, C3 := bit c 3))
                (analogPins ! nat k))
           [(0::int, 0::int), (1, 1), (2, 2), (3, 3), (8, 4), (9, 5), (10, 6), (11, 7)]"
    from s'(8, 9) have fresh: "valuesA0 s' = [100, 101, 102, 103, 108, 109, 110, 111]"
        "valuesAnalog s' = [200, 201, 202, 203, 208, 209, 210, 211]"
      by (simp_all add: mock_sampler_def address_def pin_simps)
    from s'(1-7) fresh before show ?thesis
      by (simp add: buffers_ok_stale)
  qed
qed

text \<open>
  Claim C8. In every scan cycle each sample is taken with at least 50 time
  units of \<open>delay\<close> behind the last digital write (and not with 51: the delay
  is exactly the minimum).
\<close>

theorem scanCycle_settles_before_sampling:
  assumes "buffers_ok s"
  shows "\<exists>s'. scanCycle smp s = Some s' \<and>
     settled 50 0 (new_events s s') \<and> \<not> settled 51 0 (new_events s s')"
  by (simp add: scanCycle_run [OF assms] new_events_def)

theorem scanCycle_settles_before_sampling_witness:
  "buffers_ok power_on \<and>
   (\<exists>s'. scanCycle mock_sampler power_on = Some s' \<and>
     settled 50 0 (new_events power_on s') \<and> \<not> settled 51 0 (new_events power_on s'))"
  using buffers_ok_power_on
    scanCycle_settles_before_sampling [OF buffers_ok_power_on, of mock_sampler]
  by (rule conjI)

text \<open>
  Claim C9. In every scan cycle the samples that are stored come in pairs: the
  reference pin \<open>A0\<close> into \<open>valuesA0\<close> at index \<open>k\<close>, then entry \<open>k\<close> of
  \<open>analogPins\<close> into \<open>valuesAnalog\<close> at the same index \<open>k\<close>, for \<open>k\<close> from 0 to 7.
  So channel 8 samples entry 4 of the table, not entry 8. The table is
  \<open>A8\<close> .. \<open>A15\<close>: eight distinct pins, none of them \<open>A0\<close>.
\<close>

theorem scanCycle_sampled_pins:
  assumes "buffers_ok s"
  shows "\<exists>s'. scanCycle smp s = Some s' \<and>
     sample_uses (new_events s s') =
       concat (map (\<lambda>k. [(A0, ValuesA0, int k), (analogPins ! k, ValuesAnalog, int k)])
         [0, 1, 2, 3, 4, 5, 6, 7]) \<and>
     sampled_channels (replay (pins s) (new_events s s')) =
       [(0, A0), (0, A8), (1, A0), (1, A9), (2, A0), (2, A10), (3, A0), (3, A11),
        (8, A0), (8, A12), (9, A0), (9, A13), (10, A0), (10, A14), (11, A0), (11, A15)] \<and>
     analogPins = [A8, A9, A10, A11, A12, A13, A14, A15] \<and>
     length analogPins = 8 \<and> distinct analogPins \<and> A0 \<notin> set analogPins"
  by (simp add: scanCycle_run [OF assms] new_events_def bitRead_def address_def
      C0_def C1_def C2_def C3_def analogPins_def
      A0_def A8_def A9_def A10_def A11_def A12_def A13_def A14_def A15_def)

theorem scanCycle_sampled_pins_witness:
  "buffers_ok power_on \<and>
   (\<exists>s'. scanCycle mock_sampler power_on = Some s' \<and>
     sampled_channels (replay (pins power_on) (new_events power_on s')) =
       [(0, A0), (0, A8), (1, A0), (1, A9), (2, A0), (2, A10), (3, A0), (3, A11),
        (8, A0), (8, A12), (9, A0), (9, A13), (10, A0), (10, A14), (11, A0), (11, A15)] \<and>
     distinct analogPins \<and> A0 \<notin> set analogPins)"
proof -
  from scanCycle_sampled_pins [OF buffers_ok_power_on, of mock_sampler]
  show ?thesis
    by (auto simp: buffers_ok_power_on)
qed

section \<open>The report\<close>

subsection \<open>Decimal digits never contain a line end\<close>

lemma digit_char_digit:
  assumes "d < 10"
  shows "digit_char d \<in> set ''0123456789''"
proof -
  from assms have "d < length ''0123456789''" by simp
  then show ?thesis
    unfolding digit_char_def using nth_mem by blast
qed

lemma printNumber_digits: "set (printNumber n) \<subseteq> set ''0123456789''"
proof (induction n rule: printNumber.induct)
  case (1 n)
  show ?case
  proof (cases "n < 10")
    case True
    then show ?thesis
      using digit_char_digit [of n] by (subst printNumber.simps) simp
  next
    case False
    have "digit_char (n mod 10) \<in> set ''0123456789''"
      by (rule digit_char_digit) simp
    with False "1.IH" show ?thesis
      by (subst printNumber.simps) simp
  qed
qed



lemma print_int_no_line_end: "set (print_int n) \<inter> set line_end = {}"
proof -
  define D where "D = set ''0123456789''"
  have D: "CHR 0x0D \<notin> D" "CHR 0x0A \<notin> D"
    by (simp_all add: D_def)
  have num: "set (printNumber m) \<subseteq> D" for m
    using printNumber_digits by (simp only: D_def)
  have "set (print_int n) \<subseteq> insert CHR ''-'' D"
    using num [of "nat n"] num [of "nat (- n)"] by (auto simp: print_int_def)
  with D show ?thesis
    by (auto simp: line_end_def)
qed

subsection \<open>The printing loops in closed form\<close>

lemma print_int_examples:
  "print_int 0 = ''0''" "print_int 7 = ''7''" "print_int 1023 = ''1023''" "print_int (- 15) = ''-15''"
  by (simp_all add: print_int_def printNumber.simps digit_char_def)

lemma print_A0_body_eq:
  assumes "0 \<le> i" "i < int (length (valuesA0 s))"
  shows "print_A0_body i s = Some (s\<lparr>serial := serial s @
     ''A0 Value['' @ print_int i @ ''] = '' @ print_int (valuesA0 s ! nat i) @ line_end\<rparr>)"
  using assms
  by (simp add: print_A0_body_def Serial_print_def Serial_println_def array_get_def)

lemma print_Analog_body_eq:
  assumes "0 \<le> i" "i < int (length (valuesAnalog s))"
  shows "print_Analog_body i s = Some (s\<lparr>serial := serial s @
     ''Analog Value['' @ print_int i @ ''] = '' @ print_int (valuesAnalog s ! nat i) @ line_end\<rparr>)"
  using assms
  by (simp add: print_Analog_body_def Serial_print_def Serial_println_def array_get_def)

lemma print_A0_run:
  assumes "length (valuesA0 s) = 8"
  shows "print_A0 0 s = Some (s\<lparr>serial := serial s @ concat (map
     (\<lambda>k. ''A0 Value['' @ print_int k @ ''] = '' @ print_int (valuesA0 s ! nat k) @ line_end)
     [0, 1, 2, 3, 4, 5, 6, 7])\<rparr>)"
  using assms
  by (simp add: print_A0.simps [of 0] print_A0.simps [of 1] print_A0.simps [of 2]
      print_A0.simps [of 3] print_A0.simps [of 4] print_A0.simps [of 5] print_A0.simps [of 6]
      print_A0.simps [of 7] print_A0.simps [of 8] print_A0_body_eq)

lemma print_Analog_run:
  assumes "length (valuesAnalog s) = 8"
  shows "print_Analog 0 s = Some (s\<lparr>serial := serial s @ concat (map
     (\<lambda>k. ''Analog Value['' @ print_int k @ ''] = '' @ print_int (valuesAnalog s ! nat k) @ line_end)
     [0, 1, 2, 3, 4, 5, 6, 7])\<rparr>)"
  using assms
  by (simp add: print_Analog.simps [of 0] print_Analog.simps [of 1] print_Analog.simps [of 2]
      print_Analog.simps [of 3] print_Analog.simps [of 4] print_Analog.simps [of 5]
      print_Analog.simps [of 6] print_Analog.simps [of 7] print_Analog.simps [of 8]
      print_Analog_body_eq)



lemma report_run:
  assumes "buffers_ok s"
  shows "report s = Some (s\<lparr>serial := serial s @ concat (map (\<lambda>l. l @ line_end) (report_lines s))\<rparr>)"
  using assms
  by (simp add: report_def buffers_ok_def Serial_print_def Serial_println_def
      print_A0_run print_Analog_run report_lines_def)


lemma print_int_no_cr_lf: "CHR 0x0D \<notin> set (print_int n)" "CHR 0x0A \<notin> set (print_int n)"
  using print_int_no_line_end [of n] by (simp_all add: line_end_def)

lemma report_lines_no_line_end:
  "\<forall>l \<in> set (report_lines s). CHR 0x0D \<notin> set l \<and> CHR 0x0A \<notin> set l"
  by (simp add: report_lines_def print_int_no_cr_lf)


text \<open>
  Claim C4. Every run of the report step appends to the serial output exactly
  the 18 lines of \<open>report_lines\<close>, each ended by carriage return and line feed
  and none containing either character: the header \<open>Sensors 0-7 Readings:\<close>,
  the eight entries of \<open>valuesA0\<close> as \<open>A0 Value[k] = v\<close> for \<open>k\<close> from 0 to 7,
  the header \<open>Sensors 8-15 Readings:\<close>, and the eight entries of
  \<open>valuesAnalog\<close> as \<open>Analog Value[k] = v\<close>.
\<close>

theorem report_writes_18_lines:
  assumes "buffers_ok s"
  shows "\<exists>s'. report s = Some s' \<and>
     serial s' = serial s @ concat (map (\<lambda>l. l @ line_end) (report_lines s)) \<and>
     length (report_lines s) = 18 \<and>
     (\<forall>l \<in> set (report_lines s). CHR 0x0D \<notin> set l \<and> CHR 0x0A \<notin> set l)"
proof -
  have "length (report_lines s) = 18"
    by (simp add: report_lines_def)
  with report_lines_no_line_end [of s] show ?thesis
    by (simp add: report_run [OF assms])
qed

theorem report_writes_18_lines_witness:
  "buffers_ok (power_on\<lparr>valuesA0 := [100, 101, 102, 103, 108, 109, 110, 1023]\<rparr>) \<and>
   (\<exists>s'. report (power_on\<lparr>valuesA0 := [100, 101, 102, 103, 108, 109, 110, 1023]\<rparr>) = Some s' \<and>
      serial s' = concat (map (\<lambda>l. l @ line_end)
        [''Sensors 0-7 Readings:'',
         ''A0 Value[0] = 100'', ''A0 Value[1] = 101'', ''A0 Value[2] = 102'',
         ''A0 Value[3] = 103'', ''A0 Value[4] = 108'', ''A0 Value[5] = 109'',
         ''A0 Value[6] = 110'', ''A0 Value[7] = 1023'',
         ''Sensors 8-15 Readings:'',
         ''Analog Value[0] = 0'', ''Analog Value[1] = 0'', ''Analog Value[2] = 0'',
         ''Analog Value[3] = 0'', ''Analog Value[4] = 0'', ''Analog Value[5] = 0'',
         ''Analog Value[6] = 0'', ''Analog Value[7] = 0'']))"
proof -
  let ?s = "power_on\<lparr>valuesA0 := [100, 101, 102, 103, 108, 109, 110, 1023]\<rparr>"
  have ok: "buffers_ok ?s"
    by (simp add: buffers_ok_def power_on_def)
  have lines: "report_lines ?s =
        [''Sensors 0-7 Readings:'',
         ''A0 Value[0] = 100'', ''A0 Value[1] = 101'', ''A0 Value[2] = 102'',
         ''A0 Value[3] = 103'', ''A0 Value[4] = 108'', ''A0 Value[5] = 109'',
         ''A0 Value[6] = 110'', ''A0 Value[7] = 1023'',
         ''Sensors 8-15 Readings:'',
         ''Analog Value[0] = 0'', ''Analog Value[1] = 0'', ''Analog Value[2] = 0'',
         ''Analog Value[3] = 0'', ''Analog Value[4] = 0'', ''Analog Value[5] = 0'',
         ''Analog Value[6] = 0'', ''Analog Value[7] = 0'']"
    by (simp add: report_lines_def power_on_def print_int_def printNumber.simps digit_char_def)
  have empty: "serial ?s = []"
    by (simp add: power_on_def)
  from report_writes_18_lines [OF ok] obtain s' where
    "report ?s = Some s'"
    "serial s' = serial ?s @ concat (map (\<lambda>l. l @ line_end) (report_lines ?s))"
    by blast
  then show ?thesis
    unfolding lines empty using ok by auto
qed

section \<open>Between two scan cycles\<close>

text \<open>
  Claim C10. After the scan cycle the select lines spell channel 11 (\<open>C3\<close>,
  \<open>C1\<close> and \<open>C0\<close> high, \<open>C2\<close> low). The report and the final \<open>delay(500)\<close> of
  \<open>loop()\<close> leave every digital output as the scan cycle left it and make no
  digital write: the report logs no hardware call at all, the pause only its
  delay. So the lines keep spelling 11 until the next call of \<open>loop()\<close>.
\<close>

theorem select_lines_kept_after_scan:
  assumes "buffers_ok s"
  shows "\<exists>s1 s2. scanCycle smp s = Some s1 \<and> report s1 = Some s2 \<and>
     loop smp s = Some (delay 500 s2) \<and>
     pins s1 C0 \<and> pins s1 C1 \<and> \<not> pins s1 C2 \<and> pins s1 C3 \<and> address (pins s1) = 11 \<and>
     pins s2 = pins s1 \<and> pins (delay 500 s2) = pins s1 \<and>
     new_events s1 s2 = [] \<and> new_events s1 (delay 500 s2) = [Delay 500] \<and>
     digital_writes (new_events s1 (delay 500 s2)) = []"
proof -
  define s1 where "s1 = visit smp 11 7 (visit smp 10 6 (visit smp 9 5 (visit smp 8 4
         (visit smp 3 3 (visit smp 2 2 (visit smp 1 1 (visit smp 0 0 s)))))))"
  define s2 where "s2 = s1\<lparr>serial := serial s1 @ concat (map (\<lambda>l. l @ line_end) (report_lines s1))\<rparr>"
  have run1: "scanCycle smp s = Some s1"
    unfolding s1_def by (rule scanCycle_run [OF assms])
  have ok1: "buffers_ok s1"
    unfolding s1_def by (intro buffers_ok_visit assms)
  have run2: "report s1 = Some s2"
    unfolding s2_def by (rule report_run [OF ok1])
  have out: "pins s1 = select_lines 11 (pins s)"
    by (simp add: s1_def)
  have lines: "pins s1 C0 \<and> pins s1 C1 \<and> \<not> pins s1 C2 \<and> pins s1 C3"
    unfolding out by (simp add: select_lines_def bitRead_def C0_def C1_def C2_def C3_def)
  have addr: "address (pins s1) = 11"
    unfolding out by (simp add: address_select_lines)
  have same: "pins s2 = pins s1" "trace s2 = trace s1"
    by (simp_all add: s2_def)
  have "loop smp s = Some (delay 500 s2)"
    by (simp add: loop_def run1 run2)
  moreover have "pins (delay 500 s2) = pins s1" "new_events s1 s2 = []"
      "new_events s1 (delay 500 s2) = [Delay 500]"
    by (simp_all add: delay_def new_events_def same)
  ultimately show ?thesis
    using run1 run2 lines addr same by simp
qed

theorem select_lines_kept_after_scan_witness:
  "buffers_ok power_on \<and>
   (\<exists>s1 s2. scanCycle mock_sampler power_on = Some s1 \<and> report s1 = Some s2 \<and>
     loop mock_sampler power_on = Some (delay 500 s2) \<and>
     pins s1 C0 \<and> pins s1 C1 \<and> \<not> pins s1 C2 \<and> pins s1 C3 \<and> address (pins s1) = 11 \<and>
     pins s2 = pins s1 \<and> pins (delay 500 s2) = pins s1 \<and>
     new_events s1 s2 = [] \<and> new_events s1 (delay 500 s2) = [Delay 500] \<and>
     digital_writes (new_events s1 (delay 500 s2)) = [])"
  using buffers_ok_power_on
    select_lines_kept_after_scan [OF buffers_ok_power_on, of mock_sampler]
  by (rule conjI)

end
